theory Spec2Isabelle
  imports Main "HOL-Library.Sublist"
begin

section \<open>Host language: strings, arrays and plain objects of JavaScript\<close>

text \<open>
  The program is \<^verbatim>\<open>src/index.ts\<close> of remark-code-import. A JavaScript string is
  modelled as a \<^typ>\<open>string\<close> (a list of characters, each one of 256 code units), an
  array as a list, and
  \<^verbatim>\<open>undefined\<close> as \<^const>\<open>None\<close>. Line numbers and array indices are natural
  numbers: the transformer only produces them with \<^verbatim>\<open>parseInt\<close> on a run of
  decimal digits, and every use is a comparison with, or an index into, the lines of one file.
  Messages written with \<^verbatim>\<open>console.error\<close> are returned as a list beside the
  result, and a thrown error is the left summand of the result.
\<close>

definition LF :: string where
  "LF = [CHR 0x0A]"

definition CRLF :: string where
  "CRLF = [CHR 0x0D, CHR 0x0A]"

definition dquote :: string where
  "dquote = [CHR 0x22]"

definition backslash :: char where
  "backslash = CHR 0x5C"

text \<open>\<^verbatim>\<open>s.includes(sub)\<close>: does \<open>sub\<close> occur in \<open>s\<close> at some position.\<close>

fun includes_str :: "string \<Rightarrow> string \<Rightarrow> bool" where
  "includes_str [] sub = (sub = [])"
| "includes_str (c # cs) sub = (prefix sub (c # cs) \<or> includes_str cs sub)"

text \<open>
  \<^verbatim>\<open>s.split(sep)\<close> for a string separator: cut at every occurrence of the separator,
  found from left to right without overlap. An empty separator cuts between all characters.
\<close>

function splitOn :: "string \<Rightarrow> string \<Rightarrow> string list" where
  "splitOn sep s =
     (if sep = [] then map (\<lambda>c. [c]) s
      else if s = [] then [[]]
      else if prefix sep s then [] # splitOn sep (drop (length sep) s)
      else (let r = splitOn sep (tl s) in (hd s # hd r) # tl r))"
  by pat_completeness auto
termination
  by (relation "measure (\<lambda>(sep, s). length s)") auto

declare splitOn.simps [simp del]

text \<open>\<^verbatim>\<open>xs.join(sep)\<close>.\<close>

fun join :: "string \<Rightarrow> string list \<Rightarrow> string" where
  "join sep [] = []"
| "join sep [x] = x"
| "join sep (x # y # ys) = x @ sep @ join sep (y # ys)"

text \<open>
  \<^verbatim>\<open>xs.slice(start, end)\<close> for the arguments the program passes. The start is a
  non-negative integer or \<^verbatim>\<open>NaN\<close> (here \<^const>\<open>None\<close>), which counts as 0; the
  end is a non-negative integer or \<^verbatim>\<open>undefined\<close> (here \<^const>\<open>None\<close>), which
  counts as the length. Both are clamped to the length, and a start at or after the end gives
  the empty array.
\<close>

definition slice :: "'a list \<Rightarrow> nat option \<Rightarrow> nat option \<Rightarrow> 'a list" where
  "slice xs start end' =
     (let s = (case start of None \<Rightarrow> 0 | Some i \<Rightarrow> i);
          e = (case end' of None \<Rightarrow> length xs | Some j \<Rightarrow> j)
      in drop s (take e xs))"

text \<open>\<^verbatim>\<open>xs.shift()\<close>: remove and return the first element, \<^verbatim>\<open>undefined\<close> if there is none.\<close>

definition shift :: "'a list \<Rightarrow> 'a option \<times> 'a list" where
  "shift xs = (case xs of [] \<Rightarrow> (None, []) | x # r \<Rightarrow> (Some x, r))"

text \<open>
  The object literal \<^verbatim>\<open>{}\<close> inherits from \<^verbatim>\<open>Object.prototype\<close>. Reading a key
  that is not an own property finds the inherited value when the key names one: a function
  (whose \<^verbatim>\<open>length\<close> is its number of parameters) or, for \<^verbatim>\<open>__proto__\<close>, the
  prototype object itself, which has no \<^verbatim>\<open>length\<close>. None of them has a
  \<^verbatim>\<open>push\<close> or a \<^verbatim>\<open>shift\<close> method.
\<close>

definition object_prototype :: "(string \<times> nat option) list" where
  "object_prototype =
     [(''constructor'', Some 1),
      (''__defineGetter__'', Some 2),
      (''__defineSetter__'', Some 2),
      (''hasOwnProperty'', Some 1),
      (''__lookupGetter__'', Some 1),
      (''__lookupSetter__'', Some 1),
      (''isPrototypeOf'', Some 1),
      (''propertyIsEnumerable'', Some 1),
      (''toString'', Some 0),
      (''valueOf'', Some 0),
      (''__proto__'', None),
      (''toLocaleString'', Some 0)]"

definition inherited :: "string \<Rightarrow> bool" where
  "inherited k = (k \<in> set (map fst object_prototype))"

datatype error = TypeError | Error string | ReadError string

datatype property = Undefined | Inherited "nat option" | Array "nat list"

text \<open>\<^verbatim>\<open>map[key]\<close> on an object whose own properties are \<open>own\<close>.\<close>

definition get_property :: "(string \<rightharpoonup> nat list) \<Rightarrow> string \<Rightarrow> property" where
  "get_property own k =
     (case own k of
        Some a \<Rightarrow> Array a
      | None \<Rightarrow> (case map_of object_prototype k of Some len \<Rightarrow> Inherited len | None \<Rightarrow> Undefined))"

section \<open>Markers and templates\<close>

datatype Element = Text string | Group string

text \<open>
  The character class \<^verbatim>\<open>[\w\-_]\<close>: ASCII letters, digits, the underscore and the hyphen.
\<close>

definition group_char :: "char \<Rightarrow> bool" where
  "group_char c = (c \<in> set ''abcdefghijklmnopqrstuvwxyzABCDEFGHIJKLMNOPQRSTUVWXYZ0123456789_-'')"

text \<open>
  \<^verbatim>\<open>/group (?<group>[\w\-_]*)/.exec(input)\<close>: the match starts at the leftmost
  occurrence of \<^verbatim>\<open>group\<close> followed by a space, and the group is the longest run of
  class characters after it (possibly empty). Without such an occurrence the result is
  \<^verbatim>\<open>undefined\<close>.
\<close>

fun getGroup :: "string \<Rightarrow> string option" where
  "getGroup [] = None"
| "getGroup (c # cs) =
     (if prefix ''group '' (c # cs) then Some (takeWhile group_char (drop 6 (c # cs)))
      else getGroup cs)"

definition classify :: "string \<Rightarrow> Element" where
  "classify line =
     (if includes_str line ''group'' then
        (case getGroup line of None \<Rightarrow> Text line | Some g \<Rightarrow> Group g)
      else Text line)"

text \<open>\<open>eol\<close> is \<^verbatim>\<open>os.EOL\<close>, the line terminator of the platform.\<close>

definition extractElements :: "string \<Rightarrow> string \<Rightarrow> Element list" where
  "extractElements eol input = map classify (splitOn eol input)"

text \<open>
  \<^verbatim>\<open>extractGroups\<close>: the \<^verbatim>\<open>forEach\<close> over the lines with their indices. The
  statement \<^verbatim>\<open>(map[group] ??= []).push(index)\<close> appends to the own array, creates it
  when the key is unknown, and throws a \<^verbatim>\<open>TypeError\<close> when the key is inherited
  from \<^verbatim>\<open>Object.prototype\<close>, because the inherited value is not nullish and has no
  \<^verbatim>\<open>push\<close>.
\<close>

fun extractGroups_from :: "(string \<rightharpoonup> nat list) \<Rightarrow> nat \<Rightarrow> string list \<Rightarrow> error + (string \<rightharpoonup> nat list)" where
  "extractGroups_from m i [] = Inr m"
| "extractGroups_from m i (line # rest) =
     (if includes_str line ''group'' then
        (case getGroup line of
           None \<Rightarrow> extractGroups_from m (Suc i) rest
         | Some g \<Rightarrow>
             (case get_property m g of
                Array a \<Rightarrow> extractGroups_from (m(g \<mapsto> a @ [i])) (Suc i) rest
              | Undefined \<Rightarrow> extractGroups_from (m(g \<mapsto> [i])) (Suc i) rest
              | Inherited len \<Rightarrow> Inl TypeError))
      else extractGroups_from m (Suc i) rest)"

definition extractGroups :: "string list \<Rightarrow> error + (string \<rightharpoonup> nat list)" where
  "extractGroups content = extractGroups_from Map.empty 0 content"

definition not_found :: "string \<Rightarrow> string" where
  "not_found g = ''Group '' @ g @ '' not found in document''"

text \<open>
  The callback of \<^verbatim>\<open>flatMap\<close> in \<^verbatim>\<open>transformDoc\<close>, for one element. It returns
  the messages written with \<^verbatim>\<open>console.error\<close> and either the error thrown or the
  lines the element contributes together with the updated queues.

  For a group element, \<^verbatim>\<open>array\<close> is \<^verbatim>\<open>groups[el.group]\<close>. The message is
  written when \<^verbatim>\<open>array && array.length < 2\<close>. Then
  \<^verbatim>\<open>content.slice(array.shift()! + 1, array.shift())\<close> is evaluated whatever the
  test said: on \<^verbatim>\<open>undefined\<close> and on an inherited value \<^verbatim>\<open>array.shift\<close> is
  not callable; on an array, a first \<^verbatim>\<open>shift\<close> that finds nothing gives
  \<^verbatim>\<open>undefined + 1\<close>, that is \<^verbatim>\<open>NaN\<close>.
\<close>

definition replayElement ::
  "string list \<Rightarrow> (string \<rightharpoonup> nat list) \<Rightarrow> Element \<Rightarrow>
     string list \<times> (error + string list \<times> (string \<rightharpoonup> nat list))" where
  "replayElement content groups el =
     (case el of
        Text t \<Rightarrow> ([], Inr ([t], groups))
      | Group g \<Rightarrow>
          (case get_property groups g of
             Undefined \<Rightarrow> ([], Inl TypeError)
           | Inherited len \<Rightarrow>
               ((case len of None \<Rightarrow> [] | Some l \<Rightarrow> if l < 2 then [not_found g] else []),
                Inl TypeError)
           | Array array \<Rightarrow>
               (let (a, array1) = shift array;
                    (b, array2) = shift array1
                in (if length array < 2 then [not_found g] else [],
                    Inr (slice content (map_option Suc a) b, groups(g \<mapsto> array2))))))"

text \<open>
  The elements in order: each one sees the queues its predecessors left, and an error stops
  the walk. The result lists what each element contributed, and the queues at the end.
\<close>

fun replay ::
  "string list \<Rightarrow> (string \<rightharpoonup> nat list) \<Rightarrow> Element list \<Rightarrow>
     string list \<times> (error + string list list \<times> (string \<rightharpoonup> nat list))" where
  "replay content groups [] = ([], Inr ([], groups))"
| "replay content groups (el # els) =
     (case replayElement content groups el of
        (ds, Inl e) \<Rightarrow> (ds, Inl e)
      | (ds, Inr (seg, groups')) \<Rightarrow>
          (case replay content groups' els of
             (ds', Inl e) \<Rightarrow> (ds @ ds', Inl e)
           | (ds', Inr (segs, groups'')) \<Rightarrow> (ds @ ds', Inr (seg # segs, groups''))))"

text \<open>\<^verbatim>\<open>transformDoc\<close>: \<^verbatim>\<open>flatMap\<close> concatenates the contributions.\<close>

definition transformDoc :: "string list \<Rightarrow> Element list \<Rightarrow> string list \<times> (error + string)" where
  "transformDoc content elements =
     (case extractGroups content of
        Inl e \<Rightarrow> ([], Inl e)
      | Inr groups \<Rightarrow>
          (case replay content groups elements of
             (ds, Inl e) \<Rightarrow> (ds, Inl e)
           | (ds, Inr (segs, groups')) \<Rightarrow> (ds, Inr (join LF (concat segs)))))"

section \<open>Line extraction\<close>

datatype mode = Classic | Inline

definition extractLines ::
  "string \<Rightarrow> mode \<Rightarrow> string \<Rightarrow> nat option \<Rightarrow> bool \<Rightarrow> nat option \<Rightarrow> string \<Rightarrow> bool \<Rightarrow>
     string list \<times> (error + string)" where
  "extractLines eol mode content fromLine hasDash toLine oldValue preserveTrailingNewline =
     (let lines = splitOn eol content in
      case mode of
        Classic \<Rightarrow>
          (let start = (case fromLine of None \<Rightarrow> 1 | Some n \<Rightarrow> if n = 0 then 1 else n);
               end' = (if \<not> hasDash then start
                      else if toLine \<noteq> None \<and> toLine \<noteq> Some 0 then the toLine
                      else if lines \<noteq> [] \<and> last lines = [] \<and> \<not> preserveTrailingNewline
                      then length lines - 1
                      else length lines)
           in ([], Inr (join LF (slice lines (Some (start - 1)) (Some end')))))
      | Inline \<Rightarrow> transformDoc lines (extractElements eol oldValue))"

section \<open>Directive parsing\<close>

text \<open>
  \<^verbatim>\<open>(node.meta || '').split(/(?<!\\) /g)\<close>: cut at every space that is not directly
  preceded by a backslash. The flag says whether the character before the current position is
  a backslash.
\<close>

fun split_meta_from :: "bool \<Rightarrow> string \<Rightarrow> string list" where
  "split_meta_from esc [] = [[]]"
| "split_meta_from esc (c # cs) =
     (if c = CHR '' '' \<and> \<not> esc then [] # split_meta_from False cs
      else (let r = split_meta_from (c = backslash) cs in (c # hd r) # tl r))"

definition split_meta :: "string \<Rightarrow> string list" where
  "split_meta s = split_meta_from False s"

definition meta_or_empty :: "string option \<Rightarrow> string" where
  "meta_or_empty m = (case m of None \<Rightarrow> [] | Some s \<Rightarrow> s)"

definition find_fileMeta :: "string option \<Rightarrow> string option" where
  "find_fileMeta m = find (prefix ''file='') (split_meta (meta_or_empty m))"

definition is_digit :: "char \<Rightarrow> bool" where
  "is_digit c = (c \<in> set ''0123456789'')"

text \<open>The characters that \<^verbatim>\<open>.\<close> does not match, among those a \<^typ>\<open>char\<close> can be.\<close>

definition line_terminator :: "char \<Rightarrow> bool" where
  "line_terminator c = (c = CHR 0x0A \<or> c = CHR 0x0D)"

definition digit_value :: "char \<Rightarrow> nat" where
  "digit_value c = of_char c - 48"

text \<open>\<^verbatim>\<open>parseInt(ds, 10)\<close> on a run of decimal digits.\<close>

definition parseInt :: "string \<Rightarrow> nat" where
  "parseInt ds = foldl (\<lambda>a c. 10 * a + digit_value c) 0 ds"

text \<open>
  The regular expression of the transformer is
  \<^verbatim>\<open>/^file=(?<path>.+?)(?:(?:#(?:L(?<from>\d+)(?<dash>-)?)?)(?:L(?<to>\d+))?)?$/\<close>.
  \<open>match_L\<close> is \<^verbatim>\<open>L\d+\<close> at the start of a string, giving the digits and the rest.
  \<open>match_suffix\<close> is everything after the path, up to the end of the input, giving the groups
  \<^verbatim>\<open>from\<close>, \<^verbatim>\<open>dash\<close> and \<^verbatim>\<open>to\<close>. Taking the longest run of digits
  and the first alternative that applies loses no match: the characters that may follow a run
  of digits in the expression are not digits, and a string that matches with \<^verbatim>\<open>from\<close>
  left out also matches with it.
\<close>

fun match_L :: "string \<Rightarrow> (string \<times> string) option" where
  "match_L [] = None"
| "match_L (c # cs) =
     (if c = CHR ''L'' \<and> takeWhile is_digit cs \<noteq> []
      then Some (takeWhile is_digit cs, dropWhile is_digit cs) else None)"

definition match_suffix :: "string \<Rightarrow> (string option \<times> bool \<times> string option) option" where
  "match_suffix s =
     (case s of
        [] \<Rightarrow> Some (None, False, None)
      | c # r \<Rightarrow>
          if c \<noteq> CHR ''#'' then None
          else (case match_L r of
                  None \<Rightarrow> if r = [] then Some (None, False, None) else None
                | Some (f, r1) \<Rightarrow>
                    (let d = (r1 \<noteq> [] \<and> hd r1 = CHR ''-'');
                         r2 = (if d then tl r1 else r1)
                     in case match_L r2 of
                          None \<Rightarrow> if r2 = [] then Some (Some f, d, None) else None
                        | Some (t, r3) \<Rightarrow> if r3 = [] then Some (Some f, d, Some t) else None)))"

text \<open>
  The lazy \<^verbatim>\<open>.+?\<close>: the path is the shortest non-empty prefix, free of line
  terminators, after which the rest is a suffix. \<open>p\<close> is the path read so far.
\<close>

fun match_path :: "string \<Rightarrow> string \<Rightarrow> (string \<times> string option \<times> bool \<times> string option) option" where
  "match_path p [] = (if p = [] then None else Some (p, None, False, None))"
| "match_path p (c # cs) =
     (case (if p = [] then None else match_suffix (c # cs)) of
        Some g \<Rightarrow> Some (p, g)
      | None \<Rightarrow> if line_terminator c then None else match_path (p @ [c]) cs)"

definition match_fileMeta :: "string \<Rightarrow> (string \<times> string option \<times> bool \<times> string option) option" where
  "match_fileMeta fileMeta =
     (if prefix ''file='' fileMeta then match_path [] (drop 5 fileMeta) else None)"

text \<open>
  \<^verbatim>\<open>filePath.replace(/^<rootDir>/, rootDir)\<close>. The second argument is a replacement
  pattern, in which \<^verbatim>\<open>$$\<close> stands for a dollar sign, \<^verbatim>\<open>$&\<close> for the match,
  \<^verbatim>\<open>$`\<close> for the text before the match (empty here) and \<^verbatim>\<open>$'\<close> for the text
  after it; the expression has no capture.
\<close>

fun expand_replacement :: "string \<Rightarrow> string \<Rightarrow> string \<Rightarrow> string" where
  "expand_replacement matched following (c # d # r) =
     (if c = CHR 0x24 \<and> d = CHR 0x24 then CHR 0x24 # expand_replacement matched following r
      else if c = CHR 0x24 \<and> d = CHR 0x26 then matched @ expand_replacement matched following r
      else if c = CHR 0x24 \<and> d = CHR 0x60 then expand_replacement matched following r
      else if c = CHR 0x24 \<and> d = CHR 0x27 then following @ expand_replacement matched following r
      else c # expand_replacement matched following (d # r))"
| "expand_replacement matched following r = r"

definition replace_rootDir :: "string \<Rightarrow> string \<Rightarrow> string" where
  "replace_rootDir root filePath =
     (if prefix ''<rootDir>'' filePath
      then expand_replacement ''<rootDir>'' (drop 9 filePath) root @ drop 9 filePath
      else filePath)"

text \<open>\<^verbatim>\<open>.replace(/\\ /g, ' ')\<close>.\<close>

fun unescape_spaces :: "string \<Rightarrow> string" where
  "unescape_spaces (c # d # r) =
     (if c = backslash \<and> d = CHR '' '' then CHR '' '' # unescape_spaces r
      else c # unescape_spaces (d # r))"
| "unescape_spaces r = r"

section \<open>The transformer\<close>

text \<open>
  The transformer is modelled on its sequential path (\<^verbatim>\<open>options.async\<close> false). The
  other path issues the same read and stores the same text in the node when the read succeeds.

  What the program takes from its platform: \<^verbatim>\<open>os.EOL\<close>, the functions of
  \<^verbatim>\<open>node:path\<close> it calls, \<^verbatim>\<open>process.cwd()\<close>, the file system (a read gives
  the text of the file or fails) and \<^verbatim>\<open>strip-indent\<close>.
\<close>

record host =
  os_EOL :: string
  path_sep :: string
  path_resolve :: "string \<Rightarrow> string \<Rightarrow> string"
  path_relative :: "string \<Rightarrow> string \<Rightarrow> string"
  path_isAbsolute :: "string \<Rightarrow> bool"
  process_cwd :: string
  fs_readFile :: "string \<Rightarrow> string option"
  stripIndent :: "string \<Rightarrow> string"

text \<open>An optional flag that is absent counts as false.\<close>

record CodeImportOptions =
  async :: bool
  preserveTrailingNewline :: bool
  removeRedundantIndentations :: bool
  rootDir :: "string option"
  allowImportingFromOutside :: bool

record Code =
  meta :: "string option"
  value' :: string

text \<open>
  What the body of the loop over the code nodes does for one node: the paths it reads, the
  messages it writes, and the error it throws or the node it leaves.
\<close>

record effect =
  reads :: "string list"
  diagnostics :: "string list"
  result :: "error + Code"

definition outside_message :: "string \<Rightarrow> string \<Rightarrow> string" where
  "outside_message fileAbsPath root =
     ''Attempted to import code from '' @ dquote @ fileAbsPath @ dquote @
     '', which is outside from the rootDir '' @ dquote @ root @ dquote"

definition mode_of :: "string option \<Rightarrow> mode" where
  "mode_of m = (if includes_str (meta_or_empty m) ''inline'' then Inline else Classic)"

definition transformNode :: "host \<Rightarrow> CodeImportOptions \<Rightarrow> string \<Rightarrow> string option \<Rightarrow> Code \<Rightarrow> effect" where
  "transformNode h options root dirname node =
     (case find_fileMeta (meta node) of
        None \<Rightarrow> \<lparr>reads = [], diagnostics = [], result = Inr node\<rparr>
      | Some fileMeta \<Rightarrow>
          if dirname = None \<or> dirname = Some [] then
            \<lparr>reads = [], diagnostics = [],
             result = Inl (Error (dquote @ ''file'' @ dquote @ '' should be an instance of VFile''))\<rparr>
          else
            (case match_fileMeta fileMeta of
               None \<Rightarrow>
                 \<lparr>reads = [], diagnostics = [],
                  result = Inl (Error (''Unable to parse file path '' @ fileMeta))\<rparr>
             | Some (filePath, from, dash, to) \<Rightarrow>
                 (let fromLine = map_option parseInt from;
                      hasDash = (dash \<or> fromLine = None);
                      toLine = map_option parseInt to;
                      normalizedFilePath = unescape_spaces (replace_rootDir root filePath);
                      fileAbsPath = path_resolve h (the dirname) normalizedFilePath;
                      mode = mode_of (meta node);
                      relativePathFromRootDir = path_relative h root fileAbsPath
                  in
                    if \<not> allowImportingFromOutside options \<and>
                       (root = [] \<or>
                        prefix (''..'' @ path_sep h) relativePathFromRootDir \<or>
                        path_isAbsolute h relativePathFromRootDir)
                    then
                      \<lparr>reads = [], diagnostics = [],
                       result = Inl (Error (outside_message fileAbsPath root))\<rparr>
                    else
                      (case fs_readFile h fileAbsPath of
                         None \<Rightarrow>
                           \<lparr>reads = [fileAbsPath], diagnostics = [],
                            result = Inl (ReadError fileAbsPath)\<rparr>
                       | Some fileContent \<Rightarrow>
                           (case extractLines (os_EOL h) mode fileContent fromLine hasDash toLine
                                   (value' node) (preserveTrailingNewline options) of
                              (ds, Inl e) \<Rightarrow>
                                \<lparr>reads = [fileAbsPath], diagnostics = ds, result = Inl e\<rparr>
                            | (ds, Inr v) \<Rightarrow>
                                \<lparr>reads = [fileAbsPath], diagnostics = ds,
                                 result = Inr (node\<lparr>value' :=
                                   (if removeRedundantIndentations options then stripIndent h v
                                    else v)\<rparr>)\<rparr>)))))"

text \<open>
  \<^verbatim>\<open>codeImport\<close>: the root is \<^verbatim>\<open>options.rootDir || process.cwd()\<close> and has to
  be absolute; the transformer it returns works on that root.
\<close>

definition codeImport :: "host \<Rightarrow> CodeImportOptions \<Rightarrow> error + string" where
  "codeImport h options =
     (let root = (case rootDir options of
                    None \<Rightarrow> process_cwd h
                  | Some r \<Rightarrow> if r = [] then process_cwd h else r)
      in if \<not> path_isAbsolute h root
         then Inl (Error (dquote @ ''rootDir'' @ dquote @ '' has to be an absolute path''))
         else Inr root)"

section \<open>Directives as text, and a POSIX platform\<close>

text \<open>The decimal numeral of a line number, as an author writes it in a directive.\<close>

definition digit_char :: "nat \<Rightarrow> char" where
  "digit_char d = ''0123456789'' ! d"

fun decimal :: "nat \<Rightarrow> string" where
  "decimal n = (if n < 10 then [digit_char n] else decimal (n div 10) @ [digit_char (n mod 10)])"

declare decimal.simps [simp del]

text \<open>
  \<^verbatim>\<open>path.posix\<close> in outline, for running the transformer on concrete paths: a path
  is absolute when it starts with a slash; resolving drops empty and \<^verbatim>\<open>.\<close> segments
  and lets \<^verbatim>\<open>..\<close> remove the segment before it; the relative path climbs out of
  what the two resolved paths do not share.
\<close>

definition posix_isAbsolute :: "string \<Rightarrow> bool" where
  "posix_isAbsolute p = (p \<noteq> [] \<and> hd p = CHR ''/'')"

fun posix_normalize :: "string list \<Rightarrow> string list \<Rightarrow> string list" where
  "posix_normalize acc [] = rev acc"
| "posix_normalize acc (x # xs) =
     (if x = [] \<or> x = ''.'' then posix_normalize acc xs
      else if x = ''..'' then posix_normalize (tl acc) xs
      else posix_normalize (x # acc) xs)"

definition posix_segments :: "string \<Rightarrow> string \<Rightarrow> string \<Rightarrow> string list" where
  "posix_segments cwd a b =
     posix_normalize []
       (splitOn ''/'' (if posix_isAbsolute b then b
                       else if posix_isAbsolute a then a @ ''/'' @ b
                       else cwd @ ''/'' @ a @ ''/'' @ b))"

definition posix_resolve :: "string \<Rightarrow> string \<Rightarrow> string \<Rightarrow> string" where
  "posix_resolve cwd a b = ''/'' @ join ''/'' (posix_segments cwd a b)"

fun strip_common :: "string list \<Rightarrow> string list \<Rightarrow> string list \<times> string list" where
  "strip_common (x # xs) (y # ys) = (if x = y then strip_common xs ys else (x # xs, y # ys))"
| "strip_common xs ys = (xs, ys)"

definition posix_relative :: "string \<Rightarrow> string \<Rightarrow> string \<Rightarrow> string" where
  "posix_relative cwd a b =
     (case strip_common (posix_segments cwd a []) (posix_segments cwd b []) of
        (up, down) \<Rightarrow> join ''/'' (map (\<lambda>x. ''..'') up @ down))"

definition posix :: "string \<Rightarrow> (string \<Rightarrow> string option) \<Rightarrow> host" where
  "posix cwd files =
     \<lparr>os_EOL = LF, path_sep = ''/'', path_resolve = posix_resolve cwd,
      path_relative = posix_relative cwd, path_isAbsolute = posix_isAbsolute,
      process_cwd = cwd, fs_readFile = files, stripIndent = (\<lambda>s. s)\<rparr>"

text \<open>A file system with one file, \<^verbatim>\<open>/secret\<close>.\<close>

definition secret_files :: "string \<Rightarrow> string option" where
  "secret_files p = (if p = ''/secret'' then Some ''s3cret'' else None)"

section \<open>Notions of the specification\<close>

text \<open>
  A line marks the group \<open>g\<close> when it is a marker line whose name is \<open>g\<close>. The marker
  positions of \<open>g\<close> are the indices, counted from 0, of the lines of the file that mark it.
\<close>

definition marks :: "string \<Rightarrow> string \<Rightarrow> bool" where
  "marks g line = (includes_str line ''group'' \<and> getGroup line = Some g)"

fun positions_from :: "string \<Rightarrow> nat \<Rightarrow> string list \<Rightarrow> nat list" where
  "positions_from g i [] = []"
| "positions_from g i (line # rest) =
     (if marks g line then i # positions_from g (Suc i) rest else positions_from g (Suc i) rest)"

definition marker_positions :: "string \<Rightarrow> string list \<Rightarrow> nat list" where
  "marker_positions g content = positions_from g 0 content"

text \<open>The queue a name has in an index, empty when the name has none.\<close>

definition queue :: "(string \<rightharpoonup> nat list) \<Rightarrow> string \<Rightarrow> nat list" where
  "queue m g = (case m g of None \<Rightarrow> [] | Some a \<Rightarrow> a)"

text \<open>The characters that delimit the tokens of an annotation.\<close>

definition whitespace :: "char \<Rightarrow> bool" where
  "whitespace c = (c \<in> set [CHR '' '', CHR 0x09, CHR 0x0A, CHR 0x0B, CHR 0x0C, CHR 0x0D])"

section \<open>Facts about the string functions\<close>

lemma includes_str_iff: "includes_str s sub \<longleftrightarrow> (\<exists>pre post. s = pre @ sub @ post)"
proof (induction s)
  case Nil
  then show ?case by auto
next
  case (Cons c cs)
  show ?case
  proof
    assume "includes_str (c # cs) sub"
    then consider "prefix sub (c # cs)" | "includes_str cs sub" by auto
    then show "\<exists>pre post. c # cs = pre @ sub @ post"
    proof cases
      case 1
      then obtain zs where "c # cs = sub @ zs" by (auto simp: prefix_def)
      then have "c # cs = [] @ sub @ zs" by simp
      then show ?thesis by blast
    next
      case 2
      with Cons.IH obtain pre post where "cs = pre @ sub @ post" by blast
      then have "c # cs = (c # pre) @ sub @ post" by simp
      then show ?thesis by blast
    qed
  next
    assume "\<exists>pre post. c # cs = pre @ sub @ post"
    then obtain pre post where eq: "c # cs = pre @ sub @ post" by blast
    show "includes_str (c # cs) sub"
    proof (cases pre)
      case Nil
      with eq have "prefix sub (c # cs)" by (simp add: prefix_def)
      then show ?thesis by simp
    next
      case (Cons a pre')
      with eq have "cs = pre' @ sub @ post" by simp
      with Cons.IH have "includes_str cs sub" by blast
      then show ?thesis by simp
    qed
  qed
qed

lemma splitOn_Nil: "sep \<noteq> [] \<Longrightarrow> splitOn sep [] = [[]]"
  by (simp add: splitOn.simps)

lemma splitOn_prefix:
  "sep \<noteq> [] \<Longrightarrow> prefix sep s \<Longrightarrow> splitOn sep s = [] # splitOn sep (drop (length sep) s)"
  by (subst splitOn.simps) auto

lemma splitOn_Cons:
  "sep \<noteq> [] \<Longrightarrow> \<not> prefix sep (c # cs) \<Longrightarrow>
   splitOn sep (c # cs) = (c # hd (splitOn sep cs)) # tl (splitOn sep cs)"
  by (subst splitOn.simps) (simp add: Let_def)

lemma splitOn_not_Nil: "sep \<noteq> [] \<Longrightarrow> splitOn sep s \<noteq> []"
  by (subst splitOn.simps) (simp add: Let_def)

lemma suffix_splitOn_tl:
  "sep \<noteq> [] \<Longrightarrow> suffix sep s \<Longrightarrow> tl (splitOn sep s) \<noteq> []"
proof (induction s)
  case Nil
  then show ?case by simp
next
  case (Cons c cs)
  show ?case
  proof (cases "prefix sep (c # cs)")
    case True
    with Cons.prems show ?thesis by (simp add: splitOn_prefix splitOn_not_Nil)
  next
    case False
    with Cons.prems have "suffix sep cs"
      by (auto simp: suffix_Cons)
    with Cons have "tl (splitOn sep cs) \<noteq> []" by simp
    with False Cons.prems show ?thesis by (simp add: splitOn_Cons)
  qed
qed

lemma last_splitOn:
  assumes sep: "sep \<noteq> []"
    and unbordered: "\<And>r. suffix sep (sep @ r) \<Longrightarrow> r = [] \<or> suffix sep r"
  shows "last (splitOn sep s) = [] \<longleftrightarrow> s = [] \<or> suffix sep s"
proof (induction "length s" arbitrary: s rule: less_induct)
  case less
  show ?case
  proof (cases s)
    case Nil
    with sep show ?thesis by (simp add: splitOn_Nil)
  next
    case (Cons c cs)
    show ?thesis
    proof (cases "prefix sep s")
      case True
      define r where "r = drop (length sep) s"
      from True have s: "s = sep @ r"
        by (auto simp: r_def prefix_def)
      with sep have "length r < length s" by simp
      then have IH: "last (splitOn sep r) = [] \<longleftrightarrow> r = [] \<or> suffix sep r"
        by (rule less)
      have "last (splitOn sep s) = last (splitOn sep r)"
        using sep True by (simp add: splitOn_prefix r_def splitOn_not_Nil)
      moreover have "r = [] \<or> suffix sep r \<longleftrightarrow> suffix sep s"
        using unbordered [of r] s by (auto simp: suffix_appendI)
      ultimately show ?thesis using IH Cons by simp
    next
      case False
      let ?r = "splitOn sep cs"
      have split: "splitOn sep s = (c # hd ?r) # tl ?r"
        using sep False Cons by (simp add: splitOn_Cons)
      have IH: "last ?r = [] \<longleftrightarrow> cs = [] \<or> suffix sep cs"
        using Cons by (intro less) simp
      have ne: "?r \<noteq> []" using sep by (rule splitOn_not_Nil)
      show ?thesis
      proof
        assume "last (splitOn sep s) = []"
        with split have tl: "tl ?r \<noteq> []" and "last (tl ?r) = []"
          by (auto split: if_splits)
        then have "last ?r = []"
          using ne by (cases ?r) auto
        with IH have "cs = [] \<or> suffix sep cs" by simp
        moreover have "cs \<noteq> []"
          using tl sep by (auto simp: splitOn_Nil)
        ultimately show "s = [] \<or> suffix sep s"
          using Cons by (simp add: suffix_ConsI)
      next
        assume "s = [] \<or> suffix sep s"
        with Cons False have suf: "suffix sep cs"
          by (auto simp: suffix_Cons)
        then have tl: "tl ?r \<noteq> []" using sep by (simp add: suffix_splitOn_tl)
        from suf IH have "last ?r = []" by simp
        with tl ne have "last (tl ?r) = []" by (cases ?r) auto
        with split tl show "last (splitOn sep s) = []" by simp
      qed
    qed
  qed
qed

lemma unbordered_LF: "suffix LF (LF @ r) \<Longrightarrow> r = [] \<or> suffix LF r"
  by (cases r rule: rev_cases) (auto simp: LF_def suffix_def)

lemma unbordered_CRLF: "suffix CRLF (CRLF @ r) \<Longrightarrow> r = [] \<or> suffix CRLF r"
proof (cases r rule: rev_cases)
  case Nil
  then show ?thesis by simp
next
  case (snoc ys y)
  assume a: "suffix CRLF (CRLF @ r)"
  show ?thesis
  proof (cases ys rule: rev_cases)
    case Nil
    with a snoc show ?thesis by (auto simp: CRLF_def suffix_def Cons_eq_append_conv append_eq_Cons_conv)
  next
    case (snoc zs z)
    with a \<open>r = ys @ [y]\<close> show ?thesis
      by (auto simp: CRLF_def suffix_def Cons_eq_append_conv append_eq_Cons_conv)
  qed
qed

lemma last_lines_empty:
  assumes "eol = LF \<or> eol = CRLF"
  shows "last (splitOn eol F) = [] \<longleftrightarrow> F = [] \<or> suffix eol F"
  using assms
proof
  assume "eol = LF"
  then show ?thesis using last_splitOn [of LF F] unbordered_LF by (simp add: LF_def)
next
  assume "eol = CRLF"
  then show ?thesis using last_splitOn [of CRLF F] unbordered_CRLF by (simp add: CRLF_def)
qed

section \<open>Facts about the tokens of an annotation\<close>

lemma split_meta_from_not_Nil: "split_meta_from esc s \<noteq> []"
  by (cases s) (auto simp: Let_def)

lemma hd_split_meta_from_prefix: "prefix (hd (split_meta_from esc s)) s"
  by (induction s arbitrary: esc) (auto simp: Let_def)

lemma later_token_after_space:
  "t \<in> set (tl (split_meta_from esc s)) \<Longrightarrow> prefix k t \<Longrightarrow>
   \<exists>pre post. s = pre @ k @ post \<and> pre \<noteq> [] \<and> last pre = CHR '' ''"
proof (induction s arbitrary: esc)
  case Nil
  then show ?case by simp
next
  case (Cons c cs)
  show ?case
  proof (cases "c = CHR '' '' \<and> \<not> esc")
    case True
    with Cons.prems have mem: "t \<in> set (split_meta_from False cs)" by simp
    let ?r = "split_meta_from False cs"
    have "?r = hd ?r # tl ?r" using split_meta_from_not_Nil [of False cs] by simp
    with mem have "t = hd ?r \<or> t \<in> set (tl ?r)"
      by (metis set_ConsD)
    then show ?thesis
    proof
      assume "t = hd ?r"
      then have "prefix t cs" by (simp add: hd_split_meta_from_prefix)
      with Cons.prems(2) have "prefix k cs" by (auto elim: prefix_order.trans)
      then obtain post where "cs = k @ post" by (auto simp: prefix_def)
      with True have "c # cs = [c] @ k @ post \<and> [c] \<noteq> [] \<and> last [c] = CHR '' ''" by simp
      then show ?thesis by blast
    next
      assume "t \<in> set (tl ?r)"
      from Cons.IH [OF this Cons.prems(2)] obtain pre post
        where "cs = pre @ k @ post" "pre \<noteq> []" "last pre = CHR '' ''" by blast
      then have "c # cs = (c # pre) @ k @ post \<and> c # pre \<noteq> [] \<and> last (c # pre) = CHR '' ''"
        by simp
      then show ?thesis by blast
    qed
  next
    case False
    with Cons.prems have "t \<in> set (tl (split_meta_from (c = backslash) cs))"
      by (auto simp: Let_def)
    from Cons.IH [OF this Cons.prems(2)] obtain pre post
      where "cs = pre @ k @ post" "pre \<noteq> []" "last pre = CHR '' ''" by blast
    then have "c # cs = (c # pre) @ k @ post \<and> c # pre \<noteq> [] \<and> last (c # pre) = CHR '' ''"
      by simp
    then show ?thesis by blast
  qed
qed

lemma token_starts_at_boundary:
  assumes "t \<in> set (split_meta s)" "prefix k t"
  shows "\<exists>pre post. s = pre @ k @ post \<and> (pre = [] \<or> last pre = CHR '' '')"
proof -
  let ?r = "split_meta_from False s"
  have "?r = hd ?r # tl ?r" using split_meta_from_not_Nil [of False s] by simp
  with assms(1) have "t = hd ?r \<or> t \<in> set (tl ?r)"
    unfolding split_meta_def by (metis set_ConsD)
  then show ?thesis
  proof
    assume "t = hd ?r"
    then have "prefix t s" by (simp add: hd_split_meta_from_prefix)
    with assms(2) have "prefix k s" by (auto elim: prefix_order.trans)
    then obtain post where "s = [] @ k @ post" by (auto simp: prefix_def)
    then show ?thesis by blast
  next
    assume "t \<in> set (tl ?r)"
    from later_token_after_space [OF this assms(2)] show ?thesis by blast
  qed
qed

section \<open>Facts about the directive expression\<close>

lemma digit_char_cases:
  "d < 10 \<Longrightarrow> d = 0 \<or> d = 1 \<or> d = 2 \<or> d = 3 \<or> d = 4 \<or> d = 5 \<or> d = 6 \<or> d = 7 \<or> d = 8 \<or> d = (9::nat)"
  by arith

lemma is_digit_digit_char: "d < 10 \<Longrightarrow> is_digit (digit_char d)"
  by (drule digit_char_cases) (auto simp: is_digit_def digit_char_def)

lemma digit_value_digit_char: "d < 10 \<Longrightarrow> digit_value (digit_char d) = d"
  by (drule digit_char_cases) (auto simp: digit_value_def digit_char_def)

lemma decimal_digits: "c \<in> set (decimal n) \<Longrightarrow> is_digit c"
proof (induction n arbitrary: c rule: decimal.induct)
  case (1 n)
  then show ?case
    by (subst (asm) (2) decimal.simps) (auto simp: is_digit_digit_char split: if_splits)
qed

lemma decimal_not_Nil: "decimal n \<noteq> []"
  by (subst decimal.simps) simp

lemma parseInt_snoc: "parseInt (ds @ [c]) = 10 * parseInt ds + digit_value c"
  by (simp add: parseInt_def)

lemma parseInt_decimal: "parseInt (decimal n) = n"
proof (induction n rule: decimal.induct)
  case (1 n)
  show ?case
  proof (cases "n < 10")
    case True
    then show ?thesis
      by (subst decimal.simps) (simp add: parseInt_def digit_value_digit_char)
  next
    case False
    with 1 have "parseInt (decimal (n div 10)) = n div 10" by simp
    with False show ?thesis
      by (subst decimal.simps) (simp add: parseInt_snoc digit_value_digit_char)
  qed
qed

lemma takeWhile_decimal:
  "r = [] \<or> \<not> is_digit (hd r) \<Longrightarrow> takeWhile is_digit (decimal n @ r) = decimal n"
  by (cases r) (auto simp: takeWhile_append decimal_digits takeWhile_eq_all_conv [THEN iffD2])

lemma dropWhile_decimal:
  "r = [] \<or> \<not> is_digit (hd r) \<Longrightarrow> dropWhile is_digit (decimal n @ r) = r"
  by (cases r) (auto simp: dropWhile_append decimal_digits dropWhile_eq_Nil_conv [THEN iffD2])

lemma match_L_decimal:
  "r = [] \<or> \<not> is_digit (hd r) \<Longrightarrow> match_L (CHR ''L'' # decimal n @ r) = Some (decimal n, r)"
  by (simp add: takeWhile_decimal dropWhile_decimal decimal_not_Nil)

lemma match_suffix_range:
  "match_suffix (''#L'' @ decimal n @ ''-L'' @ decimal m) = Some (Some (decimal n), True, Some (decimal m))"
proof -
  have 1: "match_L (CHR ''L'' # decimal n @ ''-L'' @ decimal m) = Some (decimal n, ''-L'' @ decimal m)"
    by (rule match_L_decimal) (simp add: is_digit_def)
  have 2: "match_L (CHR ''L'' # decimal m) = Some (decimal m, [])"
    using match_L_decimal [of "[]" m] by simp
  show ?thesis
    using 1 2 by (simp add: match_suffix_def)
qed

lemma match_L_SomeD:
  "match_L s = Some (f, r) \<Longrightarrow> s = CHR ''L'' # f @ r \<and> (\<forall>c\<in>set f. is_digit c)"
  by (cases s) (auto split: if_splits dest: set_takeWhileD)

lemma hash_not_digit: "\<not> is_digit (CHR ''#'')"
  by (simp add: is_digit_def)

lemma match_suffix_no_hash:
  assumes "match_suffix s = Some g"
  shows "CHR ''#'' \<notin> set (tl s)"
proof (cases s)
  case Nil
  then show ?thesis by simp
next
  case (Cons c r)
  show ?thesis
  proof (cases "match_L r")
    case None
    with assms Cons show ?thesis by (auto simp: match_suffix_def split: if_splits)
  next
    case (Some fr)
    obtain f r1 where fr: "fr = (f, r1)" by (cases fr)
    from Some fr have r: "r = CHR ''L'' # f @ r1" and f: "\<forall>c\<in>set f. is_digit c"
      by (auto dest: match_L_SomeD)
    define r2 where "r2 = (if r1 \<noteq> [] \<and> hd r1 = CHR ''-'' then tl r1 else r1)"
    have r1: "r1 = r2 \<or> r1 = CHR ''-'' # r2"
      by (cases r1) (auto simp: r2_def)
    have r2: "CHR ''#'' \<notin> set r2"
    proof (cases "match_L r2")
      case None
      with assms Cons Some fr have "r2 = []"
        by (auto simp: match_suffix_def Let_def r2_def split: if_splits)
      then show ?thesis by simp
    next
      case (Some tr)
      obtain t r3 where tr: "tr = (t, r3)" by (cases tr)
      with Some have *: "r2 = CHR ''L'' # t @ r3" "\<forall>c\<in>set t. is_digit c"
        by (auto dest: match_L_SomeD)
      from assms Cons \<open>match_L r = Some fr\<close> fr Some tr have "r3 = []"
        by (auto simp: match_suffix_def Let_def r2_def split: if_splits)
      with * hash_not_digit show ?thesis by auto
    qed
    from f hash_not_digit have "CHR ''#'' \<notin> set f" by blast
    with r r1 r2 Cons show ?thesis by auto
  qed
qed

lemma match_path_append:
  assumes "acc @ p \<noteq> []" "\<forall>c\<in>set p. \<not> line_terminator c"
    and "match_suffix s = Some g" "s \<noteq> []" "hd s = CHR ''#''"
  shows "match_path acc (p @ s) = Some (acc @ p, g)"
  using assms(1,2)
proof (induction p arbitrary: acc)
  case Nil
  with assms(3,4) show ?case by (cases s) auto
next
  case (Cons c p)
  have "CHR ''#'' \<in> set (p @ s)" using assms(4,5) by (cases s) auto
  then have "match_suffix (c # p @ s) = None"
    using match_suffix_no_hash [of "c # p @ s"] by (cases "match_suffix (c # p @ s)") auto
  moreover have "match_path (acc @ [c]) (p @ s) = Some ((acc @ [c]) @ p, g)"
    using Cons.prems by (intro Cons.IH) auto
  ultimately show ?case using Cons.prems by (cases "acc = []") simp_all
qed

lemma match_fileMeta_range:
  assumes "p \<noteq> []" "\<forall>c\<in>set p. \<not> line_terminator c"
  shows "match_fileMeta (''file='' @ p @ ''#L'' @ decimal n @ ''-L'' @ decimal m) =
           Some (p, Some (decimal n), True, Some (decimal m))"
proof -
  have "match_path [] (p @ (''#L'' @ decimal n @ ''-L'' @ decimal m)) =
          Some ([] @ p, Some (decimal n), True, Some (decimal m))"
    using assms by (intro match_path_append match_suffix_range) auto
  then show ?thesis by (simp add: match_fileMeta_def)
qed

section \<open>Facts about the marker index and the walk\<close>

lemma get_property_own: "m g = Some a \<Longrightarrow> get_property m g = Array a"
  by (simp add: get_property_def)

lemma get_property_fresh: "m g = None \<Longrightarrow> \<not> inherited g \<Longrightarrow> get_property m g = Undefined"
  by (simp add: get_property_def inherited_def map_of_eq_None_iff [THEN iffD2])

lemma extractGroups_from_step:
  assumes "marks g0 line" "\<not> inherited g0"
  shows "extractGroups_from m i (line # rest) =
           extractGroups_from (m(g0 \<mapsto> queue m g0 @ [i])) (Suc i) rest"
proof (cases "m g0")
  case None
  with assms show ?thesis
    by (simp add: marks_def get_property_fresh queue_def)
next
  case (Some a)
  with assms show ?thesis
    by (simp add: marks_def get_property_own queue_def)
qed

lemma extractGroups_from_skip:
  assumes "\<forall>g. \<not> marks g line"
  shows "extractGroups_from m i (line # rest) = extractGroups_from m (Suc i) rest"
  using assms by (cases "getGroup line") (auto simp: marks_def)

lemma marks_unique: "marks g line \<Longrightarrow> marks g' line \<Longrightarrow> g = g'"
  by (simp add: marks_def)

lemma extractGroups_from_positions:
  assumes "\<forall>line\<in>set lines. \<forall>g. marks g line \<longrightarrow> \<not> inherited g"
  shows "\<exists>m'. extractGroups_from m i lines = Inr m' \<and>
           (\<forall>g. m' g = (if positions_from g i lines = [] then m g
                        else Some (queue m g @ positions_from g i lines)))"
  using assms
proof (induction lines arbitrary: m i)
  case Nil
  then show ?case by simp
next
  case (Cons line rest)
  then have safe: "\<forall>line\<in>set rest. \<forall>g. marks g line \<longrightarrow> \<not> inherited g" by simp
  show ?case
  proof (cases "\<exists>g0. marks g0 line")
    case True
    then obtain g0 where g0: "marks g0 line" ..
    with Cons.prems have ni: "\<not> inherited g0" by simp
    let ?m1 = "m(g0 \<mapsto> queue m g0 @ [i])"
    from Cons.IH [OF safe, of ?m1 "Suc i"] obtain m' where
      m': "extractGroups_from ?m1 (Suc i) rest = Inr m'"
      "\<forall>g. m' g = (if positions_from g (Suc i) rest = [] then ?m1 g
                   else Some (queue ?m1 g @ positions_from g (Suc i) rest))"
      by blast
    have all: "\<forall>g. m' g = (if positions_from g i (line # rest) = [] then m g
                     else Some (queue m g @ positions_from g i (line # rest)))"
    proof
      fix g
      show "m' g = (if positions_from g i (line # rest) = [] then m g
                    else Some (queue m g @ positions_from g i (line # rest)))"
      proof (cases "g = g0")
        case True
        with g0 m'(2) show ?thesis by (simp add: queue_def)
      next
        case False
        with g0 have "\<not> marks g line" by (auto dest: marks_unique)
        with False m'(2) show ?thesis by (simp add: queue_def)
      qed
    qed
    have "extractGroups_from m i (line # rest) = Inr m'"
      using m'(1) by (simp only: extractGroups_from_step [OF g0 ni])
    with all show ?thesis by blast
  next
    case False
    then have none: "\<forall>g. \<not> marks g line" by simp
    from Cons.IH [OF safe, of m "Suc i"] obtain m' where
      m': "extractGroups_from m (Suc i) rest = Inr m'"
      "\<forall>g. m' g = (if positions_from g (Suc i) rest = [] then m g
                   else Some (queue m g @ positions_from g (Suc i) rest))"
      by blast
    have "extractGroups_from m i (line # rest) = Inr m'"
      using m'(1) by (simp only: extractGroups_from_skip [OF none])
    moreover have "\<forall>g. m' g = (if positions_from g i (line # rest) = [] then m g
                     else Some (queue m g @ positions_from g i (line # rest)))"
      using m'(2) none by simp
    ultimately show ?thesis by blast
  qed
qed

lemma extractGroups_positions:
  assumes "\<forall>line\<in>set content. \<forall>g. marks g line \<longrightarrow> \<not> inherited g"
  shows "\<exists>groups. extractGroups content = Inr groups \<and>
           (\<forall>g. groups g = (if marker_positions g content = [] then None
                            else Some (marker_positions g content)))"
proof -
  from extractGroups_from_positions [OF assms, of Map.empty 0] obtain m' where
    m': "extractGroups_from Map.empty 0 content = Inr m'"
    "\<forall>g. m' g = (if positions_from g 0 content = [] then Map.empty g
                 else Some (queue Map.empty g @ positions_from g 0 content))"
    by blast
  from m'(2) have "\<forall>g. m' g = (if marker_positions g content = [] then None
                            else Some (marker_positions g content))"
    by (simp add: marker_positions_def queue_def)
  with m'(1) show ?thesis by (auto simp: extractGroups_def)
qed

lemma positions_from_append:
  "positions_from g i (xs @ ys) = positions_from g i xs @ positions_from g (i + length xs) ys"
  by (induction xs arbitrary: i) auto

lemma positions_from_none:
  "\<forall>line\<in>set xs. \<not> marks g line \<Longrightarrow> positions_from g i xs = []"
  by (induction xs arbitrary: i) auto

lemma replayElement_pair:
  assumes "groups g = Some (p # q # rest)"
  shows "replayElement content groups (Group g) =
           ([], Inr (drop (Suc p) (take q content), groups(g \<mapsto> rest)))"
  using assms by (simp add: replayElement_def get_property_own shift_def slice_def)

lemma replay_append_ok:
  assumes "replay content groups xs = (ds, Inr (segs, groups'))"
    and "replay content groups' ys = (ds', Inr (segs', groups''))"
  shows "replay content groups (xs @ ys) = (ds @ ds', Inr (segs @ segs', groups''))"
  using assms(1)
proof (induction xs arbitrary: groups ds segs)
  case Nil
  with assms(2) show ?case by simp
next
  case (Cons el els)
  from Cons.prems obtain d1 seg g1 d2 segs2 where
    el: "replayElement content groups el = (d1, Inr (seg, g1))"
    and els: "replay content g1 els = (d2, Inr (segs2, groups'))"
    and eq: "ds = d1 @ d2" "segs = seg # segs2"
    by (auto split: prod.splits sum.splits)
  from Cons.IH [OF els] el eq show ?case by simp
qed

lemma replay_single:
  "replayElement content groups el = (ds, Inr (seg, groups')) \<Longrightarrow>
   replay content groups [el] = (ds, Inr ([seg], groups'))"
  by simp

lemma replayElement_own:
  assumes "groups g = Some a"
  shows "\<exists>ds seg a'. replayElement content groups (Group g) = (ds, Inr (seg, groups(g \<mapsto> a')))"
  using assms by (auto simp: replayElement_def get_property_own split: prod.splits)

lemma replay_total:
  assumes "\<forall>g. Group g \<in> set els \<longrightarrow> groups g \<noteq> None"
  shows "\<exists>ds segs groups'. replay content groups els = (ds, Inr (segs, groups')) \<and>
           length segs = length els \<and>
           (\<forall>k. Group k \<notin> set els \<longrightarrow> groups' k = groups k) \<and>
           (\<forall>k. groups k \<noteq> None \<longrightarrow> groups' k \<noteq> None)"
  using assms
proof (induction els arbitrary: groups)
  case Nil
  then show ?case by simp
next
  case (Cons el els)
  have "\<exists>d1 seg g1. replayElement content groups el = (d1, Inr (seg, g1)) \<and>
          (\<forall>k. el \<noteq> Group k \<longrightarrow> g1 k = groups k) \<and> (\<forall>k. groups k \<noteq> None \<longrightarrow> g1 k \<noteq> None)"
  proof (cases el)
    case (Text t)
    then show ?thesis by (simp add: replayElement_def)
  next
    case (Group g)
    with Cons.prems obtain a where "groups g = Some a" by auto
    then have "\<exists>ds seg a'. replayElement content groups (Group g) = (ds, Inr (seg, groups(g \<mapsto> a')))"
      by (rule replayElement_own)
    with Group show ?thesis by auto
  qed
  then obtain d1 seg g1 where
    el: "replayElement content groups el = (d1, Inr (seg, g1))"
    and frame: "\<forall>k. el \<noteq> Group k \<longrightarrow> g1 k = groups k"
    and dom: "\<forall>k. groups k \<noteq> None \<longrightarrow> g1 k \<noteq> None"
    by blast
  from Cons.prems dom have "\<forall>g. Group g \<in> set els \<longrightarrow> g1 g \<noteq> None" by simp
  from Cons.IH [OF this] obtain d2 segs g2 where
    els: "replay content g1 els = (d2, Inr (segs, g2))" "length segs = length els"
    "\<forall>k. Group k \<notin> set els \<longrightarrow> g2 k = g1 k" "\<forall>k. g1 k \<noteq> None \<longrightarrow> g2 k \<noteq> None"
    by blast
  have "replay content groups (el # els) = (d1 @ d2, Inr (seg # segs, g2))"
    using el els(1) by simp
  moreover have "length (seg # segs) = length (el # els)" using els(2) by simp
  moreover have "\<forall>k. Group k \<notin> set (el # els) \<longrightarrow> g2 k = groups k"
    using frame els(3) by auto
  moreover have "\<forall>k. groups k \<noteq> None \<longrightarrow> g2 k \<noteq> None"
    using dom els(4) by blast
  ultimately show ?case by blast
qed

section \<open>The scenario of the specification\<close>

text \<open>
  Claim C1. The scenario: the body is the four lines \<^verbatim>\<open>a\<close>,
  \<^verbatim>\<open><!-- group x -->\<close>, \<^verbatim>\<open><!-- group x -->\<close>, \<^verbatim>\<open>b\<close>, and the file
  is the five lines \<^verbatim>\<open>1\<close>, \<^verbatim>\<open><!-- group x -->\<close>, \<^verbatim>\<open>2\<close>,
  \<^verbatim>\<open><!-- group x -->\<close>, \<^verbatim>\<open>3\<close>. The claim expects the three lines
  \<^verbatim>\<open>a\<close>, \<^verbatim>\<open>2\<close>, \<^verbatim>\<open>b\<close>. Each of the two marker lines of the body is a
  reference of its own. The first takes both positions of \<^verbatim>\<open>x\<close> and gives the line
  \<^verbatim>\<open>2\<close>. The second finds the queue empty: the message is written, and
  \<^verbatim>\<open>content.slice(NaN, undefined)\<close> then gives the whole file. The result is
  eight lines long.
\<close>

theorem scenario_extraction_output:
  "extractLines LF Inline
     (''1'' @ LF @ ''<!-- group x -->'' @ LF @ ''2'' @ LF @ ''<!-- group x -->'' @ LF @ ''3'')
     None True None
     (''a'' @ LF @ ''<!-- group x -->'' @ LF @ ''<!-- group x -->'' @ LF @ ''b'') False
   = ([''Group x not found in document''],
      Inr (''a'' @ LF @ ''2'' @ LF @
           ''1'' @ LF @ ''<!-- group x -->'' @ LF @ ''2'' @ LF @ ''<!-- group x -->'' @ LF @ ''3''
           @ LF @ ''b''))"
  by code_simp

section \<open>References without a pair of markers\<close>

text \<open>
  Claim C2. A reference whose queue holds fewer than two positions should give no line,
  write a message that names the group, and let the walk go on. The program does this in none
  of the three cases. For a name the file never marks, \<^verbatim>\<open>groups[el.group]\<close> is
  \<^verbatim>\<open>undefined\<close>: no message is written and \<^verbatim>\<open>array.shift()\<close> throws, which
  ends the walk (first equation; the text element after the reference is never reached). For
  a queue of one position the message is written and the reference gives every line after the
  marker, to the end of the file (second equation). For a queue that earlier references
  emptied the message is written and the reference gives the whole file (third equation).
\<close>

theorem missing_pair_outputs:
  "transformDoc [''1''] [Group ''y'', Text ''t''] = ([], Inl TypeError) \<and>
   transformDoc [''group x'', ''2'', ''3''] [Group ''x'', Text ''t''] =
     ([''Group x not found in document''], Inr (''2'' @ LF @ ''3'' @ LF @ ''t'')) \<and>
   transformDoc [''1'', ''group x'', ''2'', ''group x'', ''3''] [Group ''x'', Group ''x''] =
     ([''Group x not found in document''],
      Inr (''2'' @ LF @ ''1'' @ LF @ ''group x'' @ LF @ ''2'' @ LF @ ''group x'' @ LF @ ''3''))"
  by code_simp

section \<open>The mode of a directive\<close>

text \<open>
  Claim C3, as amended. The mode is \<^const>\<open>Inline\<close> exactly when the text
  \<^verbatim>\<open>inline\<close> occurs somewhere in the annotation, in this spelling; in every other
  case it is \<^const>\<open>Classic\<close>. The occurrence need not be a token of its own.
\<close>

theorem mode_inline_iff_substring:
  "mode_of m = Inline \<longleftrightarrow> (\<exists>pre post. meta_or_empty m = pre @ ''inline'' @ post)"
  by (simp add: mode_of_def includes_str_iff)

text \<open>
  The claim as first stated asks for a separate token. The annotation
  \<^verbatim>\<open>file=inline.ts\<close> has one token, which is not \<^verbatim>\<open>inline\<close>, and its mode is
  \<^const>\<open>Inline\<close>.
\<close>

theorem mode_inline_without_token:
  "mode_of (Some ''file=inline.ts'') = Inline \<and>
   ''inline'' \<notin> set (split_meta ''file=inline.ts'')"
  by (simp add: mode_of_def meta_or_empty_def split_meta_def backslash_def)

section \<open>Classic extraction\<close>

text \<open>
  Claim C7. On a platform whose line terminator is a line feed or a carriage return followed
  by a line feed: with a first line \<open>n\<close>, a dash, no last line and
  \<^verbatim>\<open>preserveTrailingNewline\<close> false, classic extraction gives the lines of the file
  from line \<open>n\<close> to the end, without the empty last line when the file ends with the line
  terminator, joined with line feeds.
\<close>

theorem classic_open_range:
  assumes "eol = LF \<or> eol = CRLF"
  shows "extractLines eol Classic F (Some n) True None oldValue False =
           ([], Inr (join LF (drop (n - 1)
              (if suffix eol F then butlast (splitOn eol F) else splitOn eol F))))"
proof -
  have ne: "splitOn eol F \<noteq> []"
    using assms by (auto simp: splitOn_not_Nil LF_def CRLF_def)
  have empty: "last (splitOn eol F) = [] \<longleftrightarrow> F = [] \<or> suffix eol F"
    using assms by (rule last_lines_empty)
  have start: "(if n = 0 then 1 else n) - 1 = n - 1" by simp
  show ?thesis
  proof (cases "F = []")
    case True
    with assms have "splitOn eol F = [[]]" by (auto simp: splitOn_Nil LF_def CRLF_def)
    with True assms show ?thesis
      by (cases "n - 1") (auto simp: extractLines_def slice_def LF_def CRLF_def)
  next
    case False
    with empty ne show ?thesis
      by (simp add: extractLines_def slice_def butlast_conv_take start Let_def del: One_nat_def)
  qed
qed


theorem classic_open_range_witness:
  "(LF = LF \<or> LF = CRLF) \<and>
   extractLines LF Classic (''a'' @ LF @ ''b'' @ LF @ ''c'' @ LF) (Some 2) True None ''old'' False =
     ([], Inr (''b'' @ LF @ ''c''))"
  using classic_open_range [of LF "''a'' @ LF @ ''b'' @ LF @ ''c'' @ LF" 2 "''old''"]
  by (simp add: LF_def splitOn.simps suffix_def)

text \<open>
  Claim C10. In classic mode the result does not depend on the body the node had before:
  two runs that differ only in that body give the same result.
\<close>

theorem classic_ignores_oldValue:
  "extractLines eol Classic content fromLine hasDash toLine oldValue1 preserve =
   extractLines eol Classic content fromLine hasDash toLine oldValue2 preserve"
  by (simp add: extractLines_def)

text \<open>
  Claim C4, as amended. For every path that is not empty and has no line terminator, and all
  line numbers \<open>n\<close> and \<open>m\<close> with \<open>1 \<le> m < n\<close>: the directive
  \<^verbatim>\<open>file=<path>#L<n>-L<m>\<close> is matched by the expression of the transformer, with
  the path, \<open>n\<close>, the dash and \<open>m\<close> as its groups, so that no parse error is raised; and
  classic extraction from line \<open>n\<close> to line \<open>m\<close> gives the empty text, whatever the file.
\<close>

theorem reversed_range_parses_and_is_empty:
  assumes "p \<noteq> []" "\<forall>c\<in>set p. \<not> line_terminator c" "0 < m" "m < n"
  shows "match_fileMeta (''file='' @ p @ ''#L'' @ decimal n @ ''-L'' @ decimal m) =
           Some (p, Some (decimal n), True, Some (decimal m)) \<and>
         extractLines eol Classic content (Some (parseInt (decimal n))) True
             (Some (parseInt (decimal m))) oldValue preserve = ([], Inr [])"
proof
  show "match_fileMeta (''file='' @ p @ ''#L'' @ decimal n @ ''-L'' @ decimal m) =
          Some (p, Some (decimal n), True, Some (decimal m))"
    using assms(1,2) by (rule match_fileMeta_range)
  show "extractLines eol Classic content (Some (parseInt (decimal n))) True
          (Some (parseInt (decimal m))) oldValue preserve = ([], Inr [])"
    using assms(3,4) by (simp add: parseInt_decimal extractLines_def slice_def Let_def)
qed

theorem reversed_range_witness:
  "''./a.ts'' \<noteq> [] \<and> list_all (\<lambda>c. \<not> line_terminator c) ''./a.ts'' \<and> (0::nat) < 3 \<and> (3::nat) < 12 \<and>
   match_fileMeta ''file=./a.ts#L12-L3'' = Some (''./a.ts'', Some ''12'', True, Some ''3'') \<and>
   extractLines LF Classic (''a'' @ LF @ ''b'') (Some (parseInt ''12'')) True (Some (parseInt ''3'')) ''old'' False = ([], Inr [])"
proof -
  have d: "decimal 12 = ''12''" "decimal 3 = ''3''" by code_simp+
  have h: "\<forall>c\<in>set ''./a.ts''. \<not> line_terminator c" by (simp add: line_terminator_def)
  show ?thesis
    using reversed_range_parses_and_is_empty [of "''./a.ts''" 3 12 LF "''a'' @ LF @ ''b''" "''old''" False, OF _ h] h
    by (simp add: d list_all_iff)
qed

text \<open>
  The claim as first stated admits \<open>m = 0\<close>. The test \<^verbatim>\<open>else if (toLine)\<close> takes
  a last line 0 for a missing one, so \<^verbatim>\<open>#L1-L0\<close> extracts from line 1 to the end of
  the file: here the whole one-line file.
\<close>

theorem range_to_line_zero:
  "match_fileMeta ''file=a.ts#L1-L0'' = Some (''a.ts'', Some ''1'', True, Some ''0'') \<and>
   (0::nat) < 1 \<and>
   extractLines LF Classic ''x'' (Some (parseInt ''1'')) True (Some (parseInt ''0'')) [] False = ([], Inr ''x'')"
  by code_simp

section \<open>Group extraction\<close>

text \<open>
  Claim C6, as amended. The file is a line that marks \<open>a\<close>, then content lines none of
  which marks \<open>a\<close>, then a second line that marks \<open>a\<close>; no line of the file marks a
  name that \<^verbatim>\<open>Object.prototype\<close> defines. Then replaying the template of the one
  reference to \<open>a\<close> writes no message and returns exactly the content lines, joined with
  line feeds.
\<close>

theorem round_trip_between_markers:
  assumes first: "marks a first" and final: "marks a final"
    and body: "\<forall>line\<in>set body. \<not> marks a line"
    and safe: "\<forall>line\<in>set (first # body @ [final]). \<forall>g. marks g line \<longrightarrow> \<not> inherited g"
  shows "transformDoc (first # body @ [final]) [Group a] = ([], Inr (join LF body))"
proof -
  let ?content = "first # body @ [final]"
  from extractGroups_positions [OF safe] obtain groups where
    groups: "extractGroups ?content = Inr groups"
    "\<forall>g. groups g = (if marker_positions g ?content = [] then None
                      else Some (marker_positions g ?content))"
    by blast
  have "marker_positions a ?content = [0, Suc (length body)]"
    using first final body
    by (simp add: marker_positions_def positions_from_append positions_from_none)
  with groups(2) have "groups a = Some [0, Suc (length body)]" by simp
  then have "replayElement ?content groups (Group a) =
               ([], Inr (drop (Suc 0) (take (Suc (length body)) ?content), groups(a \<mapsto> [])))"
    by (rule replayElement_pair)
  then have "replay ?content groups [Group a] = ([], Inr ([body], groups(a \<mapsto> [])))"
    by simp
  with groups(1) show ?thesis by (simp add: transformDoc_def)
qed


theorem round_trip_witness:
  "marks ''a'' ''// group a'' \<and> marks ''a'' ''<!-- group a -->'' \<and>
   list_all (\<lambda>line. \<not> marks ''a'' line) [''x'', ''// group b'', ''y''] \<and>
   list_all (\<lambda>line. list_all (\<lambda>g. \<not> marks g line) (map fst object_prototype))
      [''// group a'', ''x'', ''// group b'', ''y'', ''<!-- group a -->''] \<and>
   transformDoc [''// group a'', ''x'', ''// group b'', ''y'', ''<!-- group a -->''] [Group ''a''] =
     ([], Inr (''x'' @ LF @ ''// group b'' @ LF @ ''y''))"
proof -
  have 1: "marks ''a'' ''// group a''" by code_simp
  have 2: "marks ''a'' ''<!-- group a -->''" by code_simp
  have 3: "list_all (\<lambda>line. \<not> marks ''a'' line) [''x'', ''// group b'', ''y'']" by code_simp
  have 4: "list_all (\<lambda>line. list_all (\<lambda>g. \<not> marks g line) (map fst object_prototype))
      [''// group a'', ''x'', ''// group b'', ''y'', ''<!-- group a -->'']" by code_simp
  from 3 have h3: "\<forall>line\<in>set [''x'', ''// group b'', ''y'']. \<not> marks ''a'' line"
    by (simp only: list_all_iff)
  from 4 have h4: "\<forall>line\<in>set (''// group a'' # [''x'', ''// group b'', ''y''] @ [''<!-- group a -->'']).
          \<forall>g. marks g line \<longrightarrow> \<not> inherited g"
    unfolding list_all_iff inherited_def by auto
  from round_trip_between_markers [OF 1 2 h3 h4] 1 2 3 4 show ?thesis by simp
qed


text \<open>
  The claim as first stated takes arbitrary content lines. A content line that itself marks
  \<open>a\<close> closes the pair early: between two marker lines of \<open>a\<close> the file below has the
  one content line \<^verbatim>\<open>group a\<close>, and the reference returns the empty text.
\<close>

theorem round_trip_marker_in_content:
  "marks ''a'' ''group a'' \<and>
   transformDoc [''group a'', ''group a'', ''group a''] [Group ''a''] = ([], Inr []) \<and>
   join LF [''group a''] = ''group a''"
  by code_simp

text \<open>
  Pairs are taken in file order. The name has the four marker positions \<open>p1\<close> to \<open>p4\<close>; no
  line of the file marks a name that \<^verbatim>\<open>Object.prototype\<close> defines; the template
  refers to the name exactly twice, and every other group it refers to has a marker in the file.
  Then the walk ends without an error, the first reference contributes the lines strictly between
  \<open>p1\<close> and \<open>p2\<close>, the second those strictly between \<open>p3\<close> and \<open>p4\<close>, neither writes a
  message, and the other elements contribute what they contribute on queues in which only the
  consumed positions of the name are gone.
\<close>

lemma fifo_pairs:
  assumes four: "marker_positions name content = [p1, p2, p3, p4]"
    and safe: "\<forall>line\<in>set content. \<forall>g. marks g line \<longrightarrow> \<not> inherited g"
    and twice: "Group name \<notin> set pre" "Group name \<notin> set mid" "Group name \<notin> set post"
    and marked: "\<forall>g. Group g \<in> set (pre @ mid @ post) \<longrightarrow> marker_positions g content \<noteq> []"
  shows "\<exists>groups dsA A gA dsB B gB dsC C gC.
           extractGroups content = Inr groups \<and>
           replay content groups pre = (dsA, Inr (A, gA)) \<and>
           replay content (gA(name \<mapsto> [p3, p4])) mid = (dsB, Inr (B, gB)) \<and>
           replay content (gB(name \<mapsto> [])) post = (dsC, Inr (C, gC)) \<and>
           transformDoc content (pre @ [Group name] @ mid @ [Group name] @ post) =
             (dsA @ dsB @ dsC,
              Inr (join LF (concat A @ drop (Suc p1) (take p2 content) @
                            concat B @ drop (Suc p3) (take p4 content) @ concat C)))"
proof -
  from extractGroups_positions [OF safe] obtain groups where
    groups: "extractGroups content = Inr groups"
    and index: "\<forall>g. groups g = (if marker_positions g content = [] then None
                      else Some (marker_positions g content))"
    by blast
  from index four have name: "groups name = Some [p1, p2, p3, p4]" by simp
  from index marked have known: "\<forall>g. Group g \<in> set (pre @ mid @ post) \<longrightarrow> groups g \<noteq> None"
    by simp
  then have "\<forall>g. Group g \<in> set pre \<longrightarrow> groups g \<noteq> None" by simp
  from replay_total [OF this, of content] obtain dsA A gA where
    A: "replay content groups pre = (dsA, Inr (A, gA))"
    and frameA: "\<forall>k. Group k \<notin> set pre \<longrightarrow> gA k = groups k"
    and domA: "\<forall>k. groups k \<noteq> None \<longrightarrow> gA k \<noteq> None"
    by blast
  from frameA twice(1) name have "gA name = Some (p1 # p2 # [p3, p4])" by simp
  then have r1: "replayElement content gA (Group name) =
      ([], Inr (drop (Suc p1) (take p2 content), gA(name \<mapsto> [p3, p4])))"
    by (rule replayElement_pair)
  let ?g2 = "gA(name \<mapsto> [p3, p4])"
  from known domA have "\<forall>g. Group g \<in> set mid \<longrightarrow> ?g2 g \<noteq> None" by simp
  from replay_total [OF this, of content] obtain dsB B gB where
    B: "replay content ?g2 mid = (dsB, Inr (B, gB))"
    and frameB: "\<forall>k. Group k \<notin> set mid \<longrightarrow> gB k = ?g2 k"
    and domB: "\<forall>k. ?g2 k \<noteq> None \<longrightarrow> gB k \<noteq> None"
    by blast
  from frameB twice(2) have "gB name = Some (p3 # p4 # [])" by simp
  then have r2: "replayElement content gB (Group name) =
      ([], Inr (drop (Suc p3) (take p4 content), gB(name \<mapsto> [])))"
    by (rule replayElement_pair)
  let ?g4 = "gB(name \<mapsto> [])"
  from known domA domB have "\<forall>g. Group g \<in> set post \<longrightarrow> ?g4 g \<noteq> None" by simp
  from replay_total [OF this, of content] obtain dsC C gC where
    C: "replay content ?g4 post = (dsC, Inr (C, gC))"
    by blast
  have "replay content gB ([Group name] @ post) =
          ([] @ dsC, Inr ([drop (Suc p3) (take p4 content)] @ C, gC))"
    by (rule replay_append_ok [OF replay_single [OF r2] C])
  from replay_append_ok [OF B this]
  have "replay content ?g2 (mid @ [Group name] @ post) =
          (dsB @ [] @ dsC, Inr (B @ [drop (Suc p3) (take p4 content)] @ C, gC))" .
  from replay_append_ok [OF replay_single [OF r1] this]
  have "replay content gA ([Group name] @ mid @ [Group name] @ post) =
          ([] @ dsB @ [] @ dsC,
           Inr ([drop (Suc p1) (take p2 content)] @ B @ [drop (Suc p3) (take p4 content)] @ C, gC))" .
  from replay_append_ok [OF A this]
  have "replay content groups (pre @ [Group name] @ mid @ [Group name] @ post) =
          (dsA @ [] @ dsB @ [] @ dsC,
           Inr (A @ [drop (Suc p1) (take p2 content)] @ B @ [drop (Suc p3) (take p4 content)] @ C, gC))" .
  with groups have "transformDoc content (pre @ [Group name] @ mid @ [Group name] @ post) =
             (dsA @ dsB @ dsC,
              Inr (join LF (concat A @ drop (Suc p1) (take p2 content) @
                            concat B @ drop (Suc p3) (take p4 content) @ concat C)))"
    by (simp add: transformDoc_def)
  with groups A B C show ?thesis by blast
qed


text \<open>
  Claim C5. The claim is about every file in which a name has four markers and every template
  with two references to it. Two such inputs on which the program throws instead of returning
  the two interiors: a file whose four markers carry the name \<^verbatim>\<open>constructor\<close>, which
  \<^verbatim>\<open>Object.prototype\<close> defines, so that building the index fails at the first marker;
  and a template that refers to an unmarked group \<^verbatim>\<open>y\<close> before the two references to
  \<^verbatim>\<open>x\<close>, so that the walk stops at \<^verbatim>\<open>y\<close> (the behaviour of claim C2). The last
  equation is an input on which the program does what the claim says.
\<close>

theorem fifo_failing_inputs:
  "marker_positions ''constructor''
     [''// group constructor'', ''1'', ''// group constructor'',
      ''// group constructor'', ''2'', ''// group constructor''] = [0, 2, 3, 5] \<and>
   transformDoc
     [''// group constructor'', ''1'', ''// group constructor'',
      ''// group constructor'', ''2'', ''// group constructor'']
     [Group ''constructor'', Group ''constructor''] = ([], Inl TypeError) \<and>
   marker_positions ''x'' [''group x'', ''1'', ''group x'', ''group x'', ''2'', ''group x''] =
     [0, 2, 3, 5] \<and>
   transformDoc [''group x'', ''1'', ''group x'', ''group x'', ''2'', ''group x'']
     [Group ''y'', Group ''x'', Group ''x''] = ([], Inl TypeError) \<and>
   transformDoc [''group x'', ''1'', ''group x'', ''group x'', ''2'', ''group x'']
     [Group ''x'', Text ''t'', Group ''x''] = ([], Inr (''1'' @ LF @ ''t'' @ LF @ ''2''))"
  by code_simp

section \<open>The transformer on one node\<close>

text \<open>
  The sandbox test where it applies. The node carries a directive that the expression matches,
  the document has a directory, and the path of the resolved file relative to the root starts
  with \<^verbatim>\<open>..\<close> and the separator, or is absolute. When
  \<^verbatim>\<open>allowImportingFromOutside\<close> is false the transformer reads nothing and throws the
  error whose message names the resolved path and the root. When it is true the transformer
  reads the resolved path; a failed read is the error, and a successful one is followed by the
  extraction, whose result becomes the body of the node.
\<close>

lemma sandbox_test_rejects:
  assumes directive: "find_fileMeta (meta node) = Some fileMeta"
      "match_fileMeta fileMeta = Some (filePath, from, dash, to)"
    and dirname: "dirname = Some d" "d \<noteq> []"
    and resolved: "fileAbsPath = path_resolve h d (unescape_spaces (replace_rootDir root filePath))"
    and outside: "prefix (''..'' @ path_sep h) (path_relative h root fileAbsPath) \<or>
                  path_isAbsolute h (path_relative h root fileAbsPath)"
  shows "(\<not> allowImportingFromOutside options \<longrightarrow>
            transformNode h options root dirname node =
              \<lparr>reads = [], diagnostics = [],
               result = Inl (Error (''Attempted to import code from '' @ dquote @ fileAbsPath @
                  dquote @ '', which is outside from the rootDir '' @ dquote @ root @ dquote))\<rparr>) \<and>
         (allowImportingFromOutside options \<longrightarrow>
            reads (transformNode h options root dirname node) = [fileAbsPath] \<and>
            (fs_readFile h fileAbsPath = None \<longrightarrow>
               result (transformNode h options root dirname node) = Inl (ReadError fileAbsPath)) \<and>
            (\<forall>fileContent. fs_readFile h fileAbsPath = Some fileContent \<longrightarrow>
               (diagnostics (transformNode h options root dirname node),
                result (transformNode h options root dirname node)) =
               (case extractLines (os_EOL h) (mode_of (meta node)) fileContent
                       (map_option parseInt from) (dash \<or> from = None) (map_option parseInt to)
                       (value' node) (preserveTrailingNewline options) of
                  (ds, r) \<Rightarrow>
                    (ds, map_sum id
                           (\<lambda>v. node\<lparr>value' := (if removeRedundantIndentations options
                                                 then stripIndent h v else v)\<rparr>) r))))"
  using assms
  by (auto simp: transformNode_def outside_message_def Let_def split: option.splits prod.splits sum.splits)


lemma sandbox_test_instance:
  "find_fileMeta (Some ''ts file=../../secret'') = Some ''file=../../secret'' \<and>
   match_fileMeta ''file=../../secret'' = Some (''../../secret'', None, False, None) \<and>
   posix_resolve ''/cwd'' ''/root/docs''
     (unescape_spaces (replace_rootDir ''/root'' ''../../secret'')) = ''/secret'' \<and>
   prefix ''../'' (posix_relative ''/cwd'' ''/root'' ''/secret'') \<and>
   transformNode (posix ''/cwd'' secret_files)
     \<lparr>async = False, preserveTrailingNewline = False, removeRedundantIndentations = False,
      rootDir = Some ''/root'', allowImportingFromOutside = False\<rparr>
     ''/root'' (Some ''/root/docs'') \<lparr>meta = Some ''ts file=../../secret'', value' = ''old''\<rparr> =
     \<lparr>reads = [], diagnostics = [],
      result = Inl (Error (''Attempted to import code from '' @ dquote @ ''/secret'' @ dquote @
                  '', which is outside from the rootDir '' @ dquote @ ''/root'' @ dquote))\<rparr> \<and>
   reads (transformNode (posix ''/cwd'' secret_files)
     \<lparr>async = False, preserveTrailingNewline = False, removeRedundantIndentations = False,
      rootDir = Some ''/root'', allowImportingFromOutside = True\<rparr>
     ''/root'' (Some ''/root/docs'') \<lparr>meta = Some ''ts file=../../secret'', value' = ''old''\<rparr>) =
     [''/secret''] \<and>
   result (transformNode (posix ''/cwd'' secret_files)
     \<lparr>async = False, preserveTrailingNewline = False, removeRedundantIndentations = False,
      rootDir = Some ''/root'', allowImportingFromOutside = True\<rparr>
     ''/root'' (Some ''/root/docs'') \<lparr>meta = Some ''ts file=../../secret'', value' = ''old''\<rparr>) =
     Inr \<lparr>meta = Some ''ts file=../../secret'', value' = ''s3cret''\<rparr>"
proof -
  let ?node = "\<lparr>meta = Some ''ts file=../../secret'', value' = ''old''\<rparr>"
  let ?h = "posix ''/cwd'' secret_files"
  let ?closed = "\<lparr>async = False, preserveTrailingNewline = False,
      removeRedundantIndentations = False, rootDir = Some ''/root'',
      allowImportingFromOutside = False\<rparr>"
  let ?opened = "\<lparr>async = False, preserveTrailingNewline = False,
      removeRedundantIndentations = False, rootDir = Some ''/root'',
      allowImportingFromOutside = True\<rparr>"
  have 1: "find_fileMeta (meta ?node) = Some ''file=../../secret''"
    by code_simp
  have 2: "match_fileMeta ''file=../../secret'' = Some (''../../secret'', None, False, None)"
    by code_simp
  have 3: "''/secret'' =
      path_resolve ?h ''/root/docs'' (unescape_spaces (replace_rootDir ''/root'' ''../../secret''))"
    by code_simp
  have 4: "prefix (''..'' @ path_sep ?h) (path_relative ?h ''/root'' ''/secret'') \<or>
           path_isAbsolute ?h (path_relative ?h ''/root'' ''/secret'')"
    by code_simp
  have 5: "''/root/docs'' \<noteq> []" by simp
  note t = sandbox_test_rejects [OF 1 2 refl 5 3 4]
  have a: "prefix ''../'' (posix_relative ''/cwd'' ''/root'' ''/secret'')" by code_simp
  have r: "fs_readFile ?h ''/secret'' = Some ''s3cret''" by code_simp
  have e: "extractLines (os_EOL ?h) (mode_of (meta ?node)) ''s3cret'' (map_option parseInt None)
             (False \<or> None = None) (map_option parseInt None) (value' ?node)
             (preserveTrailingNewline ?opened) = ([], Inr ''s3cret'')"
    by code_simp
  from t [of ?closed] have closed: "transformNode ?h ?closed ''/root'' (Some ''/root/docs'') ?node =
     \<lparr>reads = [], diagnostics = [],
      result = Inl (Error (''Attempted to import code from '' @ dquote @ ''/secret'' @ dquote @
                  '', which is outside from the rootDir '' @ dquote @ ''/root'' @ dquote))\<rparr>"
    by simp
  from t [of ?opened] have reads: "reads (transformNode ?h ?opened ''/root'' (Some ''/root/docs'') ?node) =
     [''/secret'']"
    by simp
  from t [of ?opened] r have "(diagnostics (transformNode ?h ?opened ''/root'' (Some ''/root/docs'') ?node),
      result (transformNode ?h ?opened ''/root'' (Some ''/root/docs'') ?node)) =
     (case extractLines (os_EOL ?h) (mode_of (meta ?node)) ''s3cret'' (map_option parseInt None)
             (False \<or> None = None) (map_option parseInt None) (value' ?node)
             (preserveTrailingNewline ?opened) of
        (ds, r) \<Rightarrow>
          (ds, map_sum id
                 (\<lambda>v. ?node\<lparr>value' := (if removeRedundantIndentations ?opened
                                        then stripIndent ?h v else v)\<rparr>) r))"
    by simp
  then have result: "result (transformNode ?h ?opened ''/root'' (Some ''/root/docs'') ?node) =
     Inr \<lparr>meta = Some ''ts file=../../secret'', value' = ''s3cret''\<rparr>"
    unfolding e by (simp add: posix_def)
  from 1 2 3 a closed reads result show ?thesis
    by (simp add: posix_def)
qed

text \<open>
  Claim C8. Every resolved path outside the root should be refused while
  \<^verbatim>\<open>allowImportingFromOutside\<close> is false. The test of the transformer asks for
  \<^verbatim>\<open>..\<close> followed by the separator at the start of the relative path, so it misses
  the path whose relative location is \<^verbatim>\<open>..\<close> alone: the parent of the root. With the
  root \<^verbatim>\<open>/secret/docs\<close>, which \<^verbatim>\<open>codeImport\<close> accepts, a document in that
  directory and the directive \<^verbatim>\<open>file=..\<close>, the resolved path is \<^verbatim>\<open>/secret\<close>
  and its relative location is \<^verbatim>\<open>..\<close>. The flag is false, no error names the path
  and the root, and the transformer reads \<^verbatim>\<open>/secret\<close>: where that is a file its
  text becomes the body of the node, and where the read fails the error is the one of the read.
\<close>

theorem root_parent_read_unchecked:
  "codeImport (posix ''/cwd'' secret_files)
     \<lparr>async = False, preserveTrailingNewline = False, removeRedundantIndentations = False,
      rootDir = Some ''/secret/docs'', allowImportingFromOutside = False\<rparr> =
     Inr ''/secret/docs'' \<and>
   posix_resolve ''/cwd'' ''/secret/docs''
     (unescape_spaces (replace_rootDir ''/secret/docs'' ''..'')) = ''/secret'' \<and>
   posix_relative ''/cwd'' ''/secret/docs'' ''/secret'' = ''..'' \<and>
   transformNode (posix ''/cwd'' secret_files)
     \<lparr>async = False, preserveTrailingNewline = False, removeRedundantIndentations = False,
      rootDir = Some ''/secret/docs'', allowImportingFromOutside = False\<rparr>
     ''/secret/docs'' (Some ''/secret/docs'') \<lparr>meta = Some ''file=..'', value' = ''old''\<rparr> =
     \<lparr>reads = [''/secret''], diagnostics = [],
      result = Inr \<lparr>meta = Some ''file=..'', value' = ''s3cret''\<rparr>\<rparr> \<and>
   transformNode (posix ''/cwd'' (\<lambda>p. None))
     \<lparr>async = False, preserveTrailingNewline = False, removeRedundantIndentations = False,
      rootDir = Some ''/secret/docs'', allowImportingFromOutside = False\<rparr>
     ''/secret/docs'' (Some ''/secret/docs'') \<lparr>meta = Some ''file=..'', value' = ''old''\<rparr> =
     \<lparr>reads = [''/secret''], diagnostics = [], result = Inl (ReadError ''/secret'')\<rparr>"
  by code_simp

text \<open>
  Claim C9. The annotation has no token that starts with \<^verbatim>\<open>file=\<close>: the text
  \<^verbatim>\<open>file=\<close> occurs neither at its start nor directly after a whitespace character.
  Then the transformer leaves the node as it is, reads no file, writes no message and raises
  no error.
\<close>

theorem no_file_token_skipped:
  assumes "\<not> (\<exists>pre post. meta_or_empty (meta node) = pre @ ''file='' @ post \<and>
                 (pre = [] \<or> whitespace (last pre)))"
  shows "transformNode h options root dirname node =
           \<lparr>reads = [], diagnostics = [], result = Inr node\<rparr>"
proof -
  have "find_fileMeta (meta node) = None"
  proof (rule ccontr)
    assume "find_fileMeta (meta node) \<noteq> None"
    then obtain t where "find (prefix ''file='') (split_meta (meta_or_empty (meta node))) = Some t"
      by (auto simp: find_fileMeta_def)
    then have "t \<in> set (split_meta (meta_or_empty (meta node)))" "prefix ''file='' t"
      by (auto simp: find_Some_iff)
    from token_starts_at_boundary [OF this] obtain pre post
      where "meta_or_empty (meta node) = pre @ ''file='' @ post" "pre = [] \<or> last pre = CHR '' ''"
      by blast
    with assms show False by (auto simp: whitespace_def)
  qed
  then show ?thesis by (simp add: transformNode_def)
qed


theorem no_file_token_witness:
  "\<not> (\<exists>pre post. meta_or_empty (meta \<lparr>meta = Some ''ts showLineNumbers'', value' = ''old''\<rparr>) = pre @ ''file='' @ post \<and>
                 (pre = [] \<or> whitespace (last pre))) \<and>
   transformNode (posix ''/cwd'' (\<lambda>p. None)) \<lparr>async = False, preserveTrailingNewline = False, removeRedundantIndentations = False, rootDir = None, allowImportingFromOutside = False\<rparr> ''/cwd'' (Some ''/cwd/docs'') \<lparr>meta = Some ''ts showLineNumbers'', value' = ''old''\<rparr> =
           \<lparr>reads = [], diagnostics = [], result = Inr \<lparr>meta = Some ''ts showLineNumbers'', value' = ''old''\<rparr>\<rparr>"
proof -
  have "\<not> includes_str ''ts showLineNumbers'' ''file=''" by simp
  then have h: "\<not> (\<exists>pre post. meta_or_empty (meta \<lparr>meta = Some ''ts showLineNumbers'', value' = ''old''\<rparr>) = pre @ ''file='' @ post \<and>
                 (pre = [] \<or> whitespace (last pre)))"
    by (simp add: includes_str_iff meta_or_empty_def)
  from h no_file_token_skipped [OF h] show ?thesis by blast
qed


end
